theory Spec2Isabelle
  imports Main "HOL-Library.Word" "HOL-Library.Sublist"
begin

section \<open>Shared data\<close>

text \<open>
  A JavaScript exception value: an instance of \<open>Error\<close> with its message, or any
  other thrown value.
\<close>

datatype exn = JsError string | NonError

text \<open>The browser and server \<open>File\<close> object: its name, declared MIME type and content.\<close>

record File =
  name :: string
  type :: string
  bytes :: "8 word list"

text \<open>JSON values, as built by \<open>NextResponse.json\<close> and read by \<open>response.json()\<close>.\<close>

datatype json = JNull | JBool bool | JNum nat | JStr string | JObj "(string \<times> json) list"

definition field :: "json \<Rightarrow> string \<Rightarrow> json option" where
  "field j k = (case j of JObj kvs \<Rightarrow> map_of kvs k | _ \<Rightarrow> None)"


section \<open>The conversion endpoint: \<open>src/app/api/convert/route.ts\<close>\<close>

subsection \<open>Runtime library: \<open>Buffer.toString('base64')\<close>\<close>

definition alphabet :: string where
  "alphabet = ''ABCDEFGHIJKLMNOPQRSTUVWXYZabcdefghijklmnopqrstuvwxyz0123456789+/''"

definition sextet :: "nat \<Rightarrow> char" where
  "sextet n = alphabet ! (n mod 64)"

fun base64 :: "8 word list \<Rightarrow> string" where
  "base64 [] = []"
| "base64 [a] =
     (let n = unat a * 65536
      in [sextet (n div 262144), sextet (n div 4096), CHR ''='', CHR ''=''])"
| "base64 [a, b] =
     (let n = unat a * 65536 + unat b * 256
      in [sextet (n div 262144), sextet (n div 4096), sextet (n div 64), CHR ''=''])"
| "base64 (a # b # c # rest) =
     (let n = unat a * 65536 + unat b * 256 + unat c
      in [sextet (n div 262144), sextet (n div 4096), sextet (n div 64), sextet n]
         @ base64 rest)"

subsection \<open>Runtime library: \<open>String.prototype.split\<close> and indexing\<close>

text \<open>
  \<open>s.split(sep)\<close> for a one-character separator: the pieces of \<open>s\<close> between the
  separators; the empty string gives one empty piece.
\<close>

fun js_split :: "char \<Rightarrow> string \<Rightarrow> string list" where
  "js_split sep [] = [Nil]"
| "js_split sep (c # cs) =
     (if c = sep then [] # js_split sep cs
      else (case js_split sep cs of
              [] \<Rightarrow> [c # Nil]
            | p # ps \<Rightarrow> (c # p) # ps))"

text \<open>
  \<open>`${xs[0]}`\<close>: the first element, and the text \<open>undefined\<close> when the array has none.
\<close>

definition index0 :: "string list \<Rightarrow> string" where
  "index0 xs = (case xs of [] \<Rightarrow> ''undefined'' | x # _ \<Rightarrow> x)"

subsection \<open>The request\<close>

text \<open>
  A multipart field holds a file or a text value. \<open>request.formData()\<close> throws when the
  body is not form data, and otherwise gives the fields in order.
\<close>

datatype form_value = FileValue File | TextValue string

type_synonym form_data = "(string \<times> form_value) list"

record request =
  formData :: "exn + form_data"

text \<open>\<open>formData.get(k)\<close>: the first value of that name, or \<open>null\<close>.\<close>

definition formData_get :: "form_data \<Rightarrow> string \<Rightarrow> form_value option" where
  "formData_get fd k = map_of fd k"

text \<open>
  The value is used as a \<open>File\<close> without a check, so the model keeps what JavaScript does
  with the other two shapes: \<open>null\<close> and the empty string are falsy, and reading \<open>.type\<close>
  from a string gives \<open>undefined\<close>.
\<close>

definition truthy :: "form_value option \<Rightarrow> bool" where
  "truthy v = (case v of
                 None \<Rightarrow> False
               | Some (TextValue t) \<Rightarrow> t \<noteq> []
               | Some (FileValue f) \<Rightarrow> True)"

definition type_of :: "form_value option \<Rightarrow> string option" where
  "type_of v = (case v of Some (FileValue f) \<Rightarrow> Some (type f) | _ \<Rightarrow> None)"

definition includes' :: "string list \<Rightarrow> string option \<Rightarrow> bool" where
  "includes' xs v = (case v of None \<Rightarrow> False | Some t \<Rightarrow> t \<in> set xs)"

definition allowedTypes :: "string list" where
  "allowedTypes = [''image/jpeg'', ''image/jpg'', ''image/png'']"

text \<open>
  The \<open>image\<close> field of a request; a request whose body is not form data has no fields.
\<close>

definition image_field :: "request \<Rightarrow> form_value option" where
  "image_field req =
     (case formData req of Inl e \<Rightarrow> None | Inr fd \<Rightarrow> formData_get fd ''image'')"

subsection \<open>The image library\<close>

text \<open>
  The three chained calls into \<open>sharp\<close> are parameters of the handler. Each takes the
  input buffer and either throws or gives its result.
\<close>

record sharp_metadata =
  width :: "nat option"
  height :: "nat option"

record tiff_options =
  compression :: string
  quality :: nat
  predictor :: string

record sharp =
  sharp_metadata :: "8 word list \<Rightarrow> exn + sharp_metadata"
  sharp_jpeg :: "nat \<Rightarrow> 8 word list \<Rightarrow> exn + 8 word list"
  sharp_tiff :: "tiff_options \<Rightarrow> string \<Rightarrow> 8 word list \<Rightarrow> exn + 8 word list"

subsection \<open>The handler\<close>

record response =
  http_status :: nat
  http_body :: json

text \<open>
  What the handler does besides answering: console output (recorded by its first
  argument) and the calls into the image library, in order.
\<close>

datatype effect =
    ConsoleLog string
  | ConsoleError string
  | SharpMetadata
  | SharpJpeg
  | SharpTiff

definition sharp_calls :: "effect list \<Rightarrow> effect list" where
  "sharp_calls effs = filter (\<lambda>e. e = SharpMetadata \<or> e = SharpJpeg \<or> e = SharpTiff) effs"

definition json_response :: "(string \<times> json) list \<Rightarrow> nat \<Rightarrow> response" where
  "json_response kvs st = \<lparr>http_status = st, http_body = JObj kvs\<rparr>"

text \<open>A property whose value is \<open>undefined\<close> is left out of the serialised object.\<close>

definition num_property :: "string \<Rightarrow> nat option \<Rightarrow> (string \<times> json) list" where
  "num_property k v = (case v of None \<Rightarrow> [] | Some n \<Rightarrow> [(k, JNum n)])"

definition output_filename :: "string \<Rightarrow> string" where
  "output_filename n = index0 (js_split CHR ''.'' n) @ ''_cmyk.tiff''"

text \<open>The \<open>catch\<close> block of \<open>POST\<close>, entered with the effects so far.\<close>

definition catch_block :: "effect list \<Rightarrow> response \<times> effect list" where
  "catch_block effs =
     (json_response [(''error'', JStr ''Failed to convert image. Please try again.'')] 500,
      effs @ [ConsoleError ''Conversion error:''])"

definition POST :: "sharp \<Rightarrow> request \<Rightarrow> response \<times> effect list" where
  "POST lib request =
     (let log0 = [ConsoleLog ''API route called - POST method''] in
      case formData request of
        Inl e \<Rightarrow> catch_block log0
      | Inr fd \<Rightarrow>
          let file = formData_get fd ''image'';
              log1 = log0 @ [ConsoleLog ''File received:'']
          in
          if \<not> truthy file then
            (json_response [(''error'', JStr ''No file provided'')] 400,
             log1 @ [ConsoleLog ''No file provided''])
          else if \<not> includes' allowedTypes (type_of file) then
            (json_response
               [(''error'', JStr ''Invalid file type. Only JPG, JPEG, and PNG are supported.'')]
               400,
             log1 @ [ConsoleLog ''Invalid file type:''])
          else
            (case file of
               Some (FileValue f) \<Rightarrow>
                 let buffer = bytes f;
                     log2 = log1 @ [ConsoleLog ''Processing image with Sharp...'']
                 in
                 (case sharp_metadata lib buffer of
                    Inl e \<Rightarrow> catch_block (log2 @ [SharpMetadata])
                  | Inr metadata \<Rightarrow>
                 (case sharp_jpeg lib 90 buffer of
                    Inl e \<Rightarrow> catch_block (log2 @ [SharpMetadata, SharpJpeg])
                  | Inr previewBuffer \<Rightarrow>
                 (case sharp_tiff lib
                         \<lparr>compression = ''lzw'', quality = 100, predictor = ''horizontal''\<rparr>
                         ''cmyk'' buffer of
                    Inl e \<Rightarrow> catch_block (log2 @ [SharpMetadata, SharpJpeg, SharpTiff])
                  | Inr convertedBuffer \<Rightarrow>
                      let previewBase64 = ''data:image/jpeg;base64,'' @ base64 previewBuffer;
                          convertedBase64 = ''data:image/tiff;base64,'' @ base64 convertedBuffer
                      in
                      (json_response
                         [(''success'', JBool True),
                          (''previewUrl'', JStr previewBase64),
                          (''downloadData'', JStr convertedBase64),
                          (''filename'', JStr (output_filename (name f))),
                          (''metadata'',
                             JObj (num_property ''width'' (width metadata)
                                   @ num_property ''height'' (height metadata)
                                   @ [(''format'', JStr ''TIFF (CMYK)''),
                                      (''size'', JNum (length convertedBuffer))]))]
                         200,
                       log2 @ [SharpMetadata, SharpJpeg, SharpTiff,
                               ConsoleLog ''Conversion successful'']))))
             | _ \<Rightarrow> catch_block log1))"


section \<open>The upload page: the client component \<open>Home\<close>\<close>

subsection \<open>Items and responses\<close>

datatype Status = Pending | Processing | Completed | Error

record ImageFile =
  id' :: string
  file' :: File
  preview :: string
  status :: Status
  previewUrl :: "string option"
  downloadData :: "string option"
  filename :: "string option"
  metadata :: "json option"
  error :: "string option"

text \<open>
  The four properties \<open>convertImage\<close> reads from the parsed response body; a property
  the body does not have is \<open>undefined\<close>. The body is taken to parse to an object, which
  is what the endpoint sends.
\<close>

record ConversionResult =
  result_previewUrl :: "string option"
  result_downloadData :: "string option"
  result_filename :: "string option"
  result_metadata :: "json option"

text \<open>
  A \<open>fetch\<close> response: its status code, and what \<open>response.text()\<close> and
  \<open>response.json()\<close> give, each of which may throw.
\<close>

record Response =
  status' :: nat
  text' :: "exn + string"
  json' :: "exn + ConversionResult"

definition ok :: "Response \<Rightarrow> bool" where
  "ok response = (200 \<le> status' response \<and> status' response \<le> 299)"

datatype FetchOutcome = Rejected exn | Resolved Response

text \<open>A number inside a template literal: its decimal digits.\<close>

definition digit :: "nat \<Rightarrow> char" where
  "digit n = ''0123456789'' ! (n mod 10)"

fun string_of_nat :: "nat \<Rightarrow> string" where
  "string_of_nat n =
     (if n < 10 then [digit n] else string_of_nat (n div 10) @ [digit n])"

subsection \<open>Asynchronous handlers\<close>

text \<open>
  An \<open>async\<close> function is a process: a sequence of state updates that ends by
  returning or throwing, and that is suspended at each request until the request settles.
  \<open>SetImagesMap g\<close> is \<open>setImages((prev) => prev.map(g))\<close>. The awaits of one request
  (\<open>fetch\<close>, then \<open>response.text()\<close> or \<open>response.json()\<close>) are one suspension: no
  state is touched between them.
\<close>

datatype proc =
    Return
  | Throw exn
  | SetImagesMap "ImageFile \<Rightarrow> ImageFile" proc
  | SetIsProcessing bool proc
  | Fetch File "FetchOutcome \<Rightarrow> proc"

primrec seq :: "proc \<Rightarrow> proc \<Rightarrow> proc" where
  "seq Return q = q"
| "seq (Throw e) q = Throw e"
| "seq (SetImagesMap g p) q = SetImagesMap g (seq p q)"
| "seq (SetIsProcessing b p) q = SetIsProcessing b (seq p q)"
| "seq (Fetch f k) q = Fetch f (\<lambda>outcome. seq (k outcome) q)"

primrec try_catch :: "proc \<Rightarrow> (exn \<Rightarrow> proc) \<Rightarrow> proc" where
  "try_catch Return h = Return"
| "try_catch (Throw e) h = h e"
| "try_catch (SetImagesMap g p) h = SetImagesMap g (try_catch p h)"
| "try_catch (SetIsProcessing b p) h = SetIsProcessing b (try_catch p h)"
| "try_catch (Fetch f k) h = Fetch f (\<lambda>outcome. try_catch (k outcome) h)"

fun for_of :: "'a list \<Rightarrow> ('a \<Rightarrow> proc) \<Rightarrow> proc" where
  "for_of [] body = Return"
| "for_of (x # xs) body = seq (body x) (for_of xs body)"

subsection \<open>\<open>convertImage\<close>\<close>

definition mark_processing :: "ImageFile \<Rightarrow> ImageFile \<Rightarrow> ImageFile" where
  "mark_processing imageFile img =
     (if id' img = id' imageFile then img\<lparr>status := Processing\<rparr> else img)"

definition mark_completed :: "ImageFile \<Rightarrow> ConversionResult \<Rightarrow> ImageFile \<Rightarrow> ImageFile" where
  "mark_completed imageFile result img =
     (if id' img = id' imageFile
      then img\<lparr>status := Completed,
               previewUrl := result_previewUrl result,
               downloadData := result_downloadData result,
               filename := result_filename result,
               metadata := result_metadata result\<rparr>
      else img)"

definition mark_error :: "ImageFile \<Rightarrow> exn \<Rightarrow> ImageFile \<Rightarrow> ImageFile" where
  "mark_error imageFile err img =
     (if id' img = id' imageFile
      then img\<lparr>status := Error,
               error := Some (case err of
                                JsError message \<Rightarrow> message
                              | NonError \<Rightarrow> ''Failed to convert image. Please try again.'')\<rparr>
      else img)"

definition try_block :: "ImageFile \<Rightarrow> proc" where
  "try_block imageFile =
     Fetch (file' imageFile) (\<lambda>outcome.
       case outcome of
         Rejected e \<Rightarrow> Throw e
       | Resolved response \<Rightarrow>
           if \<not> ok response then
             (case text' response of
                Inl e \<Rightarrow> Throw e
              | Inr errorText \<Rightarrow>
                  Throw (JsError (''Conversion failed: '' @ string_of_nat (status' response)
                                  @ '' '' @ errorText)))
           else
             (case json' response of
                Inl e \<Rightarrow> Throw e
              | Inr result \<Rightarrow> SetImagesMap (mark_completed imageFile result) Return))"

definition convertImage :: "ImageFile \<Rightarrow> proc" where
  "convertImage imageFile =
     SetImagesMap (mark_processing imageFile)
       (try_catch (try_block imageFile)
          (\<lambda>err. SetImagesMap (mark_error imageFile err) Return))"

subsection \<open>\<open>convertAllImages\<close>\<close>

definition convertAllImages :: "ImageFile list \<Rightarrow> proc" where
  "convertAllImages images =
     SetIsProcessing True
       (let pendingImages = filter (\<lambda>img. status img = Pending) images
        in seq (for_of pendingImages convertImage)
               (SetIsProcessing False Return))"

subsection \<open>The page state and its events\<close>

datatype browser_call = FetchCall File | RevokeObjectURL string

record App =
  images :: "ImageFile list"
  isProcessing :: bool
  awaiting :: "(File \<times> (FetchOutcome \<Rightarrow> proc)) list"
  calls :: "browser_call list"

definition init :: App where
  "init = \<lparr>images = [], isProcessing = False, awaiting = [], calls = []\<rparr>"

text \<open>
  Running a process up to its next suspension. A request is sent and its continuation
  kept until the request settles; an exception that leaves the handler ends it.
\<close>

primrec run :: "proc \<Rightarrow> App \<Rightarrow> App" where
  "run Return s = s"
| "run (Throw e) s = s"
| "run (SetImagesMap g p) s = run p (s\<lparr>images := map g (images s)\<rparr>)"
| "run (SetIsProcessing b p) s = run p (s\<lparr>isProcessing := b\<rparr>)"
| "run (Fetch f k) s = s\<lparr>awaiting := awaiting s @ [(f, k)], calls := calls s @ [FetchCall f]\<rparr>"

text \<open>
  \<open>onDrop\<close>: each accepted file comes with the identifier and the object URL the
  browser made for it.
\<close>

definition onDrop :: "(string \<times> File \<times> string) list \<Rightarrow> App \<Rightarrow> App" where
  "onDrop acceptedFiles s =
     s\<lparr>images := images s @
          map (\<lambda>(i, f, url).
                 \<lparr>id' = i, file' = f, preview = url, status = Pending,
                  previewUrl = None, downloadData = None, filename = None,
                  metadata = None, error = None\<rparr>)
              acceptedFiles\<rparr>"

definition clearImages :: "App \<Rightarrow> App" where
  "clearImages s =
     s\<lparr>calls := calls s @ map (\<lambda>img. RevokeObjectURL (preview img)) (images s),
       images := []\<rparr>"

text \<open>
  What the user and the network can do. A click on a disabled button, or on a button that
  is not rendered, does nothing. \<open>Settle n outcome\<close>: the \<open>n\<close>-th request in flight
  settles and its handler resumes.
\<close>

datatype ui_event =
    Drop "(string \<times> File \<times> string) list"
  | ClickConvertAll
  | ClickClearAll
  | ClickConvert nat
  | Settle nat FetchOutcome

fun step :: "ui_event \<Rightarrow> App \<Rightarrow> App" where
  "step (Drop acceptedFiles) s = onDrop acceptedFiles s"
| "step ClickConvertAll s =
     (if 0 < length (images s)
         \<and> \<not> (isProcessing s \<or> list_all (\<lambda>img. status img \<noteq> Pending) (images s))
      then run (convertAllImages (images s)) s
      else s)"
| "step ClickClearAll s =
     (if 0 < length (images s) \<and> \<not> isProcessing s then clearImages s else s)"
| "step (ClickConvert i) s =
     (if i < length (images s)
         \<and> \<not> (status (images s ! i) \<noteq> Pending \<and> status (images s ! i) \<noteq> Error)
      then run (convertImage (images s ! i)) s
      else s)"
| "step (Settle n outcome) s =
     (if n < length (awaiting s)
      then run (snd (awaiting s ! n) outcome)
             (s\<lparr>awaiting := take n (awaiting s) @ drop (Suc n) (awaiting s)\<rparr>)
      else s)"

definition steps :: "ui_event list \<Rightarrow> App \<Rightarrow> App" where
  "steps evs s = fold step evs s"

subsection \<open>Derived forms and observations\<close>

text \<open>
  The update \<open>convertImage\<close> applies once its request has settled, by outcome: the
  \<open>try\<close> block followed through to its end or to the \<open>catch\<close> block.
\<close>

definition attempt :: "FetchOutcome \<Rightarrow> exn + ConversionResult" where
  "attempt outcome =
     (case outcome of
        Rejected e \<Rightarrow> Inl e
      | Resolved response \<Rightarrow>
          if \<not> ok response then
            (case text' response of
               Inl e \<Rightarrow> Inl e
             | Inr errorText \<Rightarrow>
                 Inl (JsError (''Conversion failed: '' @ string_of_nat (status' response)
                               @ '' '' @ errorText)))
          else json' response)"

definition settled :: "ImageFile \<Rightarrow> FetchOutcome \<Rightarrow> ImageFile \<Rightarrow> ImageFile" where
  "settled imageFile outcome =
     (case attempt outcome of
        Inl e \<Rightarrow> mark_error imageFile e
      | Inr result \<Rightarrow> mark_completed imageFile result)"




definition is_Drop :: "ui_event \<Rightarrow> bool" where
  "is_Drop ev = (case ev of Drop acceptedFiles \<Rightarrow> True | _ \<Rightarrow> False)"

text \<open>
  What an item was made from when it was dropped (its identifier, file and preview URL),
  and everything dropped in the course of some events.
\<close>

definition origin :: "ImageFile \<Rightarrow> string \<times> File \<times> string" where
  "origin img = (id' img, file' img, preview img)"

definition dropped :: "ui_event list \<Rightarrow> (string \<times> File \<times> string) list" where
  "dropped evs =
     concat (map (\<lambda>ev. case ev of Drop acceptedFiles \<Rightarrow> acceptedFiles | _ \<Rightarrow> []) evs)"

text \<open>
  Invariants of the handlers in flight: every update a process makes keeps what each
  item was made from, and changes no item whose identifier is outside \<open>D\<close>.
\<close>

primrec confined :: "string set \<Rightarrow> proc \<Rightarrow> bool" where
  "confined D Return = True"
| "confined D (Throw e) = True"
| "confined D (SetImagesMap g p) =
     ((\<forall>img. origin (g img) = origin img) \<and> (\<forall>img. id' img \<notin> D \<longrightarrow> g img = img)
      \<and> confined D p)"
| "confined D (SetIsProcessing b p) = confined D p"
| "confined D (Fetch f k) = (\<forall>outcome. confined D (k outcome))"

definition awaiting_confined :: "string set \<Rightarrow> App \<Rightarrow> bool" where
  "awaiting_confined D s = (\<forall>w \<in> set (awaiting s). \<forall>outcome. confined D (snd w outcome))"


section \<open>Concrete inputs\<close>

text \<open>A stand-in for the image library, for concrete runs of the handler.\<close>

definition example_sharp :: sharp where
  "example_sharp =
     \<lparr>sharp_metadata = (\<lambda>b. if b = [] then Inl (JsError ''Input Buffer is empty'')
                             else Inr \<lparr>width = Some 1, height = Some 1\<rparr>),
      sharp_jpeg = (\<lambda>q b. Inr [0xFF, 0xD8, 0xFF]),
      sharp_tiff = (\<lambda>opts cs b. Inr [0x49, 0x49, 0x2A, 0x00])\<rparr>"

definition example_png :: File where
  "example_png = \<lparr>name = ''archive.tar.png'', type = ''image/png'', bytes = [0x89, 0x50]\<rparr>"

definition example_gif :: File where
  "example_gif = \<lparr>name = ''anim.gif'', type = ''image/gif'', bytes = [0x47, 0x49]\<rparr>"

definition example_empty :: File where
  "example_empty = \<lparr>name = ''empty.png'', type = ''image/png'', bytes = []\<rparr>"

definition example_jpg :: File where
  "example_jpg = \<lparr>name = ''photo.jpg'', type = ''image/jpeg'', bytes = [0xFF, 0xD8]\<rparr>"

definition example_drop :: "(string \<times> File \<times> string) list" where
  "example_drop = [(''k3j9x1q0a'', example_jpg, ''blob:1''), (''p0z8m2w7b'', example_png, ''blob:2'')]"

definition example_ok :: "string \<Rightarrow> Response" where
  "example_ok url =
     \<lparr>status' = 200, text' = Inr [],
      json' = Inr \<lparr>result_previewUrl = Some url, result_downloadData = Some ''data:image/tiff;base64,SUkqAA=='',
                   result_filename = Some ''archive_cmyk.tiff'', result_metadata = None\<rparr>\<rparr>"

definition example_item :: ImageFile where
  "example_item =
     \<lparr>id' = ''k3j9x1q0a'', file' = example_jpg, preview = ''blob:1'', status = Pending,
      previewUrl = None, downloadData = None, filename = None, metadata = None, error = None\<rparr>"

definition example_later_drop :: "(string \<times> File \<times> string) list" where
  "example_later_drop = [(''n7c2v5x1d'', example_empty, ''blob:3'')]"


section \<open>Properties of the endpoint\<close>

lemma base64_test_vectors:
  "base64 [0x4D, 0x61, 0x6E] = ''TWFu''"
  "base64 [0x4D, 0x61] = ''TWE=''"
  "base64 [0x4D] = ''TQ==''"
  by (simp_all add: sextet_def alphabet_def Let_def)

lemma base64_length: "length (base64 bs) = 4 * ((length bs + 2) div 3)"
proof (induction bs rule: base64.induct)
  case (4 a b c rest)
  have "(length rest + 5) div 3 = Suc ((length rest + 2) div 3)" by arith
  with 4 show ?case by (simp add: Let_def add.commute)
qed (simp_all add: Let_def)

lemma js_split_hd: "js_split sep s = takeWhile (\<lambda>c. c \<noteq> sep) s # tl (js_split sep s)"
  by (induction s) (auto split: list.splits)

lemma output_filename_eq:
  "output_filename n = takeWhile (\<lambda>c. c \<noteq> CHR ''.'') n @ ''_cmyk.tiff''"
  unfolding output_filename_def index0_def
  by (subst js_split_hd) simp

lemma POST_200_cases:
  assumes "http_status (fst (POST lib req)) = 200"
  obtains fd f md p c where
    "formData req = Inr fd" "formData_get fd ''image'' = Some (FileValue f)"
    "type f \<in> set allowedTypes"
    "sharp_metadata lib (bytes f) = Inr md"
    "sharp_jpeg lib 90 (bytes f) = Inr p"
    "sharp_tiff lib \<lparr>compression = ''lzw'', quality = 100, predictor = ''horizontal''\<rparr> ''cmyk'' (bytes f) = Inr c"
  using assms
  by (auto simp: POST_def catch_block_def json_response_def Let_def includes'_def type_of_def
      split: sum.splits if_splits option.splits form_value.splits)

lemma POST_success:
  assumes "formData req = Inr fd" "formData_get fd ''image'' = Some (FileValue f)"
    "type f \<in> set allowedTypes"
    "sharp_metadata lib (bytes f) = Inr md"
    "sharp_jpeg lib 90 (bytes f) = Inr p"
    "sharp_tiff lib \<lparr>compression = ''lzw'', quality = 100, predictor = ''horizontal''\<rparr> ''cmyk'' (bytes f) = Inr c"
  shows "fst (POST lib req) = json_response
                         [(''success'', JBool True),
                          (''previewUrl'', JStr (''data:image/jpeg;base64,'' @ base64 p)),
                          (''downloadData'', JStr (''data:image/tiff;base64,'' @ base64 c)),
                          (''filename'', JStr (output_filename (name f))),
                          (''metadata'',
                             JObj (num_property ''width'' (width md)
                                   @ num_property ''height'' (height md)
                                   @ [(''format'', JStr ''TIFF (CMYK)''),
                                      (''size'', JNum (length c))]))]
                         200"
  using assms
  by (simp add: POST_def Let_def includes'_def type_of_def truthy_def)

text \<open>
  C1, as the code has it. \<open>POST\<close> answers HTTP 400 exactly when the body parses as form
  data and the \<open>image\<close> field is absent or the declared content type of its value is not
  one of \<open>image/jpeg\<close>, \<open>image/jpg\<close>, \<open>image/png\<close>. In a parsed body, an absent field
  gives the body \<open>{error: 'No file provided'}\<close>, and a file of another type gives an error
  message that begins \<open>Invalid file type\<close>. Whenever the answer is 400, no call into the
  image library has been made. (A text value in the field has no content type, so it is
  refused too.)
\<close>

theorem POST_validation:
  assumes "POST lib req = (resp, effs)"
  shows "(http_status resp = 400 \<longleftrightarrow>
            (\<exists>fd. formData req = Inr fd)
            \<and> (image_field req = None
                \<or> \<not> includes' allowedTypes (type_of (image_field req))))
       \<and> ((\<exists>fd. formData req = Inr fd) \<and> image_field req = None \<longrightarrow>
            resp = \<lparr>http_status = 400,
                    http_body = JObj [(''error'', JStr ''No file provided'')]\<rparr>)
       \<and> (\<forall>f. image_field req = Some (FileValue f) \<and> type f \<notin> set allowedTypes \<longrightarrow>
            http_status resp = 400
            \<and> (\<exists>rest. http_body resp = JObj [(''error'', JStr (''Invalid file type'' @ rest))]))
       \<and> (http_status resp = 400 \<longrightarrow> sharp_calls effs = [])"
  using assms
  by (auto simp: POST_def catch_block_def json_response_def Let_def includes'_def type_of_def
      truthy_def sharp_calls_def image_field_def
      split: sum.splits if_splits option.splits form_value.splits)

theorem POST_validation_witness:
  "formData \<lparr>formData = Inr []\<rparr> = Inr []
   \<and> image_field \<lparr>formData = Inr []\<rparr> = None
   \<and> fst (POST example_sharp \<lparr>formData = Inr []\<rparr>) =
       \<lparr>http_status = 400, http_body = JObj [(''error'', JStr ''No file provided'')]\<rparr>
   \<and> sharp_calls (snd (POST example_sharp \<lparr>formData = Inr []\<rparr>)) = []
   \<and> image_field \<lparr>formData = Inr [(''image'', FileValue example_gif)]\<rparr>
       = Some (FileValue example_gif)
   \<and> type example_gif \<notin> set allowedTypes
   \<and> fst (POST example_sharp \<lparr>formData = Inr [(''image'', FileValue example_gif)]\<rparr>) =
       \<lparr>http_status = 400,
        http_body = JObj [(''error'',
          JStr ''Invalid file type. Only JPG, JPEG, and PNG are supported.'')]\<rparr>
   \<and> sharp_calls (snd (POST example_sharp \<lparr>formData = Inr [(''image'', FileValue example_gif)]\<rparr>)) = []"
  using POST_validation [of example_sharp "\<lparr>formData = Inr []\<rparr>"
          "fst (POST example_sharp \<lparr>formData = Inr []\<rparr>)"
          "snd (POST example_sharp \<lparr>formData = Inr []\<rparr>)"]
        POST_validation [of example_sharp "\<lparr>formData = Inr [(''image'', FileValue example_gif)]\<rparr>"
          "fst (POST example_sharp \<lparr>formData = Inr [(''image'', FileValue example_gif)]\<rparr>)"
          "snd (POST example_sharp \<lparr>formData = Inr [(''image'', FileValue example_gif)]\<rparr>)"]
  by (simp add: formData_get_def example_gif_def allowedTypes_def includes'_def type_of_def
      truthy_def POST_def Let_def json_response_def image_field_def)

text \<open>
  C1, as stated, fails for a request whose body is not form data: it has no \<open>image\<close>
  field, and the answer is HTTP 500, not 400.
\<close>

theorem POST_no_form_body:
  "image_field \<lparr>formData = Inl (JsError ''Failed to parse body as FormData.'')\<rparr> = None
   \<and> http_status (fst (POST example_sharp
         \<lparr>formData = Inl (JsError ''Failed to parse body as FormData.'')\<rparr>)) = 500"
  by (simp add: image_field_def POST_def catch_block_def json_response_def)

text \<open>
  C2. Every response with status 200 comes from an accepted file whose preview and TIFF
  encodings both succeeded, and its body has \<open>success\<close> true, \<open>previewUrl\<close> the text
  \<open>data:image/jpeg;base64,\<close> followed by the base64 of the preview, \<open>downloadData\<close> the
  text \<open>data:image/tiff;base64,\<close> followed by the base64 of the TIFF output, a
  \<open>filename\<close> string, and \<open>metadata\<close> whose \<open>format\<close> is \<open>TIFF (CMYK)\<close> and whose
  \<open>size\<close> is the number of bytes of the TIFF output.
\<close>

theorem POST_success_body:
  assumes "http_status (fst (POST lib req)) = 200"
  shows "\<exists>fd f p c m.
           formData req = Inr fd
         \<and> formData_get fd ''image'' = Some (FileValue f)
         \<and> type f \<in> set allowedTypes
         \<and> sharp_jpeg lib 90 (bytes f) = Inr p
         \<and> sharp_tiff lib \<lparr>compression = ''lzw'', quality = 100, predictor = ''horizontal''\<rparr>
              ''cmyk'' (bytes f) = Inr c
         \<and> field (http_body (fst (POST lib req))) ''success'' = Some (JBool True)
         \<and> field (http_body (fst (POST lib req))) ''previewUrl'' =
              Some (JStr (''data:image/jpeg;base64,'' @ base64 p))
         \<and> field (http_body (fst (POST lib req))) ''downloadData'' =
              Some (JStr (''data:image/tiff;base64,'' @ base64 c))
         \<and> field (http_body (fst (POST lib req))) ''filename'' =
              Some (JStr (output_filename (name f)))
         \<and> field (http_body (fst (POST lib req))) ''metadata'' = Some m
         \<and> field m ''format'' = Some (JStr ''TIFF (CMYK)'')
         \<and> field m ''size'' = Some (JNum (length c))"
proof -
  from assms obtain fd f md p c where h:
    "formData req = Inr fd" "formData_get fd ''image'' = Some (FileValue f)"
    "type f \<in> set allowedTypes"
    "sharp_metadata lib (bytes f) = Inr md"
    "sharp_jpeg lib 90 (bytes f) = Inr p"
    "sharp_tiff lib \<lparr>compression = ''lzw'', quality = 100, predictor = ''horizontal''\<rparr>
       ''cmyk'' (bytes f) = Inr c"
    by (rule POST_200_cases)
  have "field (JObj (num_property ''width'' (width md) @ num_property ''height'' (height md)
          @ [(''format'', JStr ''TIFF (CMYK)''), (''size'', JNum (length c))])) ''format''
        = Some (JStr ''TIFF (CMYK)'')"
    and "field (JObj (num_property ''width'' (width md) @ num_property ''height'' (height md)
          @ [(''format'', JStr ''TIFF (CMYK)''), (''size'', JNum (length c))])) ''size''
        = Some (JNum (length c))"
    by (simp_all add: field_def num_property_def split: option.splits)
  with h show ?thesis
    by (simp add: POST_success [OF h] json_response_def field_def)
qed

theorem POST_success_body_witness:
  "http_status (fst (POST example_sharp \<lparr>formData = Inr [(''image'', FileValue example_png)]\<rparr>)) = 200
   \<and> (\<exists>m. field (http_body (fst (POST example_sharp
               \<lparr>formData = Inr [(''image'', FileValue example_png)]\<rparr>))) ''metadata'' = Some m
          \<and> field m ''size'' = Some (JNum 4))
   \<and> field (http_body (fst (POST example_sharp
               \<lparr>formData = Inr [(''image'', FileValue example_png)]\<rparr>))) ''downloadData''
       = Some (JStr ''data:image/tiff;base64,SUkqAA=='')"
proof -
  have st: "http_status (fst (POST example_sharp
              \<lparr>formData = Inr [(''image'', FileValue example_png)]\<rparr>)) = 200"
    by (simp add: POST_def Let_def formData_get_def example_png_def example_sharp_def
        allowedTypes_def includes'_def type_of_def truthy_def json_response_def)
  from POST_success_body [OF st] st show ?thesis
    by (auto simp: example_sharp_def sextet_def alphabet_def Let_def)
qed

text \<open>
  C3. The \<open>filename\<close> of a response with status 200 is the uploaded file's name cut at
  its first \<open>.\<close>, followed by \<open>_cmyk.tiff\<close>: \<open>photo.jpg\<close> gives \<open>photo_cmyk.tiff\<close>,
  \<open>archive.tar.png\<close> gives \<open>archive_cmyk.tiff\<close>, a name without \<open>.\<close> is kept whole, and
  a name that starts with \<open>.\<close> gives \<open>_cmyk.tiff\<close>.
\<close>

theorem POST_filename:
  "output_filename n = takeWhile (\<lambda>c. c \<noteq> CHR ''.'') n @ ''_cmyk.tiff''
   \<and> (http_status (fst (POST lib req)) = 200 \<longrightarrow>
        (\<exists>fd f. formData req = Inr fd
               \<and> formData_get fd ''image'' = Some (FileValue f)
               \<and> field (http_body (fst (POST lib req))) ''filename'' =
                    Some (JStr (takeWhile (\<lambda>c. c \<noteq> CHR ''.'') (name f) @ ''_cmyk.tiff''))))
   \<and> output_filename ''photo.jpg'' = ''photo_cmyk.tiff''
   \<and> output_filename ''archive.tar.png'' = ''archive_cmyk.tiff''
   \<and> (CHR ''.'' \<notin> set n \<longrightarrow> output_filename n = n @ ''_cmyk.tiff'')
   \<and> output_filename (CHR ''.'' # n) = ''_cmyk.tiff''"
proof -
  have eq: "\<And>m. output_filename m = takeWhile (\<lambda>c. c \<noteq> CHR ''.'') m @ ''_cmyk.tiff''"
    by (rule output_filename_eq)
  have resp: "\<exists>fd f. formData req = Inr fd
               \<and> formData_get fd ''image'' = Some (FileValue f)
               \<and> field (http_body (fst (POST lib req))) ''filename'' =
                    Some (JStr (takeWhile (\<lambda>c. c \<noteq> CHR ''.'') (name f) @ ''_cmyk.tiff''))"
    if st: "http_status (fst (POST lib req)) = 200"
  proof -
    from st obtain fd f md p c where h:
      "formData req = Inr fd" "formData_get fd ''image'' = Some (FileValue f)"
      "type f \<in> set allowedTypes"
      "sharp_metadata lib (bytes f) = Inr md"
      "sharp_jpeg lib 90 (bytes f) = Inr p"
      "sharp_tiff lib \<lparr>compression = ''lzw'', quality = 100, predictor = ''horizontal''\<rparr>
         ''cmyk'' (bytes f) = Inr c"
      by (rule POST_200_cases)
    have "field (http_body (fst (POST lib req))) ''filename'' =
            Some (JStr (output_filename (name f)))"
      by (simp add: POST_success [OF h] json_response_def field_def)
    with h(1,2) show ?thesis by (simp add: eq)
  qed
  have nodot: "output_filename n = n @ ''_cmyk.tiff''" if "CHR ''.'' \<notin> set n"
  proof -
    from that have "takeWhile (\<lambda>c. c \<noteq> CHR ''.'') n = n"
      by (auto intro: takeWhile_eq_all_conv [THEN iffD2])
    then show ?thesis by (simp add: eq)
  qed
  show ?thesis
    using resp nodot by (simp add: eq)
qed

theorem POST_filename_witness:
  "http_status (fst (POST example_sharp \<lparr>formData = Inr [(''image'', FileValue example_png)]\<rparr>)) = 200
   \<and> field (http_body (fst (POST example_sharp
              \<lparr>formData = Inr [(''image'', FileValue example_png)]\<rparr>))) ''filename''
       = Some (JStr ''archive_cmyk.tiff'')
   \<and> CHR ''.'' \<notin> set ''README''
   \<and> output_filename ''README'' = ''README_cmyk.tiff''"
proof -
  have st: "http_status (fst (POST example_sharp
              \<lparr>formData = Inr [(''image'', FileValue example_png)]\<rparr>)) = 200"
    by (simp add: POST_def Let_def formData_get_def example_png_def example_sharp_def
        allowedTypes_def includes'_def type_of_def truthy_def json_response_def)
  from POST_filename [of "''README''" example_sharp
         "\<lparr>formData = Inr [(''image'', FileValue example_png)]\<rparr>"] st
  show ?thesis
    by (auto simp: formData_get_def example_png_def)
qed

text \<open>
  C4. For a request that passes validation, an exception from any of the three library
  calls (metadata, preview, CMYK TIFF) gives HTTP 500 with the one body
  \<open>{error: 'Failed to convert image. Please try again.'}\<close>, whatever the exception was;
  the body has no other property.
\<close>

theorem POST_pipeline_failure:
  assumes "formData req = Inr fd"
    and "formData_get fd ''image'' = Some (FileValue f)"
    and "type f \<in> set allowedTypes"
    and "(\<exists>e. sharp_metadata lib (bytes f) = Inl e)
         \<or> (\<exists>e. sharp_jpeg lib 90 (bytes f) = Inl e)
         \<or> (\<exists>e. sharp_tiff lib
                   \<lparr>compression = ''lzw'', quality = 100, predictor = ''horizontal''\<rparr>
                   ''cmyk'' (bytes f) = Inl e)"
  shows "fst (POST lib req) =
           \<lparr>http_status = 500,
            http_body = JObj [(''error'', JStr ''Failed to convert image. Please try again.'')]\<rparr>"
  using assms
  by (auto simp: POST_def catch_block_def json_response_def Let_def includes'_def type_of_def
      truthy_def split: sum.splits)

theorem POST_pipeline_failure_witness:
  "formData \<lparr>formData = Inr [(''image'', FileValue example_empty)]\<rparr>
     = Inr [(''image'', FileValue example_empty)]
   \<and> formData_get [(''image'', FileValue example_empty)] ''image'' = Some (FileValue example_empty)
   \<and> type example_empty \<in> set allowedTypes
   \<and> sharp_metadata example_sharp (bytes example_empty) = Inl (JsError ''Input Buffer is empty'')
   \<and> fst (POST example_sharp \<lparr>formData = Inr [(''image'', FileValue example_empty)]\<rparr>) =
       \<lparr>http_status = 500,
        http_body = JObj [(''error'', JStr ''Failed to convert image. Please try again.'')]\<rparr>"
proof -
  have a: "formData \<lparr>formData = Inr [(''image'', FileValue example_empty)]\<rparr>
             = Inr [(''image'', FileValue example_empty)]"
    by simp
  have b: "formData_get [(''image'', FileValue example_empty)] ''image''
             = Some (FileValue example_empty)"
    by (simp add: formData_get_def)
  have c: "type example_empty \<in> set allowedTypes"
    by (simp add: example_empty_def allowedTypes_def)
  have d: "sharp_metadata example_sharp (bytes example_empty) = Inl (JsError ''Input Buffer is empty'')"
    by (simp add: example_empty_def example_sharp_def)
  from POST_pipeline_failure [OF a b c] d a b c show ?thesis
    by blast
qed

text \<open>
  C10. When the body cannot be parsed as form data, \<open>request.formData()\<close> throws inside
  the \<open>try\<close> block: the answer is HTTP 500 with the generic conversion-failure message, not
  HTTP 400, and neither validation message is produced.
\<close>

theorem POST_unparseable_body:
  "fst (POST lib \<lparr>formData = Inl e\<rparr>) =
     \<lparr>http_status = 500,
      http_body = JObj [(''error'', JStr ''Failed to convert image. Please try again.'')]\<rparr>
   \<and> http_status (fst (POST lib \<lparr>formData = Inl e\<rparr>)) \<noteq> 400"
  by (simp add: POST_def catch_block_def json_response_def)


section \<open>Properties of the upload page\<close>

lemma string_of_nat_500: "string_of_nat 500 = ''500''"
  by (simp add: digit_def)

lemma seq_assoc: "seq (seq p q) r = seq p (seq q r)"
  by (induction p) simp_all

lemma convertImage_form:
  "convertImage x =
     SetImagesMap (mark_processing x)
       (Fetch (file' x) (\<lambda>outcome. SetImagesMap (settled x outcome) Return))"
  by (auto simp: convertImage_def try_block_def settled_def attempt_def fun_eq_iff
      split: FetchOutcome.splits sum.splits)

lemma steps_Nil: "steps [] s = s"
  by (simp add: steps_def)

lemma steps_Cons: "steps (e # evs) s = steps evs (step e s)"
  by (simp add: steps_def)

lemma steps_append: "steps (es @ fs) s = steps fs (steps es s)"
  by (simp add: steps_def)

lemma settle_out_of_range:
  "length (awaiting s) \<le> n \<Longrightarrow> steps (map (Settle n) os) s = s"
  by (induction os) (simp_all add: steps_Nil steps_Cons)

lemma run_loop_Nil:
  "run (seq (for_of [] convertImage) (SetIsProcessing False Return)) s = s\<lparr>isProcessing := False\<rparr>"
  by simp

lemma run_loop_Cons:
  "run (seq (for_of (x # xs) convertImage) (SetIsProcessing False Return)) s =
     s\<lparr>images := map (mark_processing x) (images s),
       awaiting := awaiting s @
         [(file' x, \<lambda>outcome. SetImagesMap (settled x outcome)
                      (seq (for_of xs convertImage) (SetIsProcessing False Return)))],
       calls := calls s @ [FetchCall (file' x)]\<rparr>"
  by (simp add: convertImage_form seq_assoc)

lemma settle_loop:
  "step (Settle (length (awaiting s)) outcome)
        (run (seq (for_of (x # xs) convertImage) (SetIsProcessing False Return)) s) =
   run (seq (for_of xs convertImage) (SetIsProcessing False Return))
       (s\<lparr>images := map (settled x outcome) (map (mark_processing x) (images s)),
          calls := calls s @ [FetchCall (file' x)]\<rparr>)"
  unfolding run_loop_Cons
  by (simp, rule arg_cong [where f = "run _"], rule App.equality; simp)

lemma loop_progress:
  fixes xs :: "ImageFile list"
  defines "fin \<equiv> SetIsProcessing False Return"
  shows "(length os < length xs \<longrightarrow>
            isProcessing (steps (map (Settle (length (awaiting s))) os)
                            (run (seq (for_of xs convertImage) fin) s)) = isProcessing s
          \<and> map fst (awaiting (steps (map (Settle (length (awaiting s))) os)
                            (run (seq (for_of xs convertImage) fin) s)))
              = map fst (awaiting s) @ [file' (xs ! length os)]
          \<and> calls (steps (map (Settle (length (awaiting s))) os)
                            (run (seq (for_of xs convertImage) fin) s))
              = calls s @ map (\<lambda>img. FetchCall (file' img)) (take (Suc (length os)) xs))
       \<and> (length xs \<le> length os \<longrightarrow>
            \<not> isProcessing (steps (map (Settle (length (awaiting s))) os)
                            (run (seq (for_of xs convertImage) fin) s))
          \<and> awaiting (steps (map (Settle (length (awaiting s))) os)
                            (run (seq (for_of xs convertImage) fin) s)) = awaiting s
          \<and> calls (steps (map (Settle (length (awaiting s))) os)
                            (run (seq (for_of xs convertImage) fin) s))
              = calls s @ map (\<lambda>img. FetchCall (file' img)) xs)"
proof (induction xs arbitrary: s os)
  case Nil
  have "steps (map (Settle (length (awaiting s))) os) (s\<lparr>isProcessing := False\<rparr>)
          = s\<lparr>isProcessing := False\<rparr>"
    by (rule settle_out_of_range) simp
  then show ?case by (simp add: fin_def)
next
  case (Cons x xs)
  show ?case
  proof (cases os)
    case Nil
    then show ?thesis
      by (simp add: fin_def run_loop_Cons steps_Nil del: for_of.simps)
  next
    case (Cons outcome os')
    let ?s' = "s\<lparr>images := map (settled x outcome) (map (mark_processing x) (images s)),
                  calls := calls s @ [FetchCall (file' x)]\<rparr>"
    have eq: "steps (map (Settle (length (awaiting s))) os)
                (run (seq (for_of (x # xs) convertImage) fin) s)
              = steps (map (Settle (length (awaiting ?s'))) os')
                  (run (seq (for_of xs convertImage) fin) ?s')"
      unfolding Cons fin_def by (simp add: steps_Cons settle_loop del: step.simps for_of.simps)
    show ?thesis
      unfolding eq using Cons.IH [of os' ?s'] Cons
      by simp
  qed
qed

lemma run_convertAllImages:
  "run (convertAllImages imgs) s =
     run (seq (for_of (filter (\<lambda>img. status img = Pending) imgs) convertImage)
              (SetIsProcessing False Return))
         (s\<lparr>isProcessing := True\<rparr>)"
  by (simp add: convertAllImages_def Let_def)


lemma run_images_empty: "images s = [] \<Longrightarrow> images (run p s) = []"
  by (induction p arbitrary: s) simp_all

lemma step_images_empty: "images s = [] \<Longrightarrow> \<not> is_Drop ev \<Longrightarrow> images (step ev s) = []"
  by (cases ev) (simp_all add: is_Drop_def run_images_empty clearImages_def)

lemma steps_images_empty:
  "images s = [] \<Longrightarrow> \<forall>ev \<in> set evs. \<not> is_Drop ev \<Longrightarrow> images (steps evs s) = []"
  by (induction evs arbitrary: s) (simp_all add: steps_Nil steps_Cons step_images_empty)

lemma settle_convertImage:
  "step (Settle (length (awaiting s)) outcome) (run (convertImage x) s) =
     s\<lparr>images := map (settled x outcome) (map (mark_processing x) (images s)),
       calls := calls s @ [FetchCall (file' x)]\<rparr>"
  by (rule App.equality; simp add: convertImage_form)

lemma settled_other: "id' img \<noteq> id' x \<Longrightarrow> settled x outcome img = img"
  by (simp add: settled_def mark_error_def mark_completed_def split: sum.splits)


lemma settled_status:
  "id' img = id' x \<Longrightarrow> status (settled x outcome img) = Completed \<or> status (settled x outcome img) = Error"
  by (simp add: settled_def mark_error_def mark_completed_def split: sum.splits)


lemma mark_processing_other: "id' img \<noteq> id' x \<Longrightarrow> mark_processing x img = img"
  by (simp add: mark_processing_def)

lemma run_convertImage_images:
  "images (run (convertImage x) s) = map (mark_processing x) (images s)"
  by (simp add: convertImage_form)

text \<open>
  C5. \<open>convertAllImages\<close>, started in a state with \<open>N\<close> pending items, and its requests
  settling one after the other with any outcomes: while fewer than \<open>N\<close> responses have
  arrived, \<open>isProcessing\<close> is true, exactly one of its requests is in flight (the one for
  the next pending item in list order), and it has sent one request more than it has
  received responses; once \<open>N\<close> responses have arrived it has sent exactly the \<open>N\<close>
  requests, one per pending item in list order, none is in flight, and \<open>isProcessing\<close> is
  false.
\<close>

theorem convertAllImages_serial:
  "(length os < length (filter (\<lambda>img. status img = Pending) (images s)) \<longrightarrow>
      isProcessing (steps (map (Settle (length (awaiting s))) os)
                      (run (convertAllImages (images s)) s))
    \<and> map fst (awaiting (steps (map (Settle (length (awaiting s))) os)
                      (run (convertAllImages (images s)) s)))
        = map fst (awaiting s)
          @ [file' (filter (\<lambda>img. status img = Pending) (images s) ! length os)]
    \<and> calls (steps (map (Settle (length (awaiting s))) os)
                      (run (convertAllImages (images s)) s))
        = calls s @ map (\<lambda>img. FetchCall (file' img))
                      (take (Suc (length os)) (filter (\<lambda>img. status img = Pending) (images s))))
   \<and> (length (filter (\<lambda>img. status img = Pending) (images s)) \<le> length os \<longrightarrow>
      \<not> isProcessing (steps (map (Settle (length (awaiting s))) os)
                      (run (convertAllImages (images s)) s))
    \<and> awaiting (steps (map (Settle (length (awaiting s))) os)
                      (run (convertAllImages (images s)) s)) = awaiting s
    \<and> calls (steps (map (Settle (length (awaiting s))) os)
                      (run (convertAllImages (images s)) s))
        = calls s @ map (\<lambda>img. FetchCall (file' img))
                      (filter (\<lambda>img. status img = Pending) (images s)))"
  unfolding run_convertAllImages
  using loop_progress [of os "filter (\<lambda>img. status img = Pending) (images s)"
                          "s\<lparr>isProcessing := True\<rparr>"]
  by simp

theorem convertAllImages_serial_witness:
  "length [Rejected NonError]
     < length (filter (\<lambda>img. status img = Pending) (images (onDrop example_drop init)))
   \<and> isProcessing (steps (map (Settle 0) [Rejected NonError])
                     (run (convertAllImages (images (onDrop example_drop init)))
                        (onDrop example_drop init)))
   \<and> calls (steps (map (Settle 0) [Rejected NonError])
                     (run (convertAllImages (images (onDrop example_drop init)))
                        (onDrop example_drop init)))
       = [FetchCall example_jpg, FetchCall example_png]
   \<and> length (filter (\<lambda>img. status img = Pending) (images (onDrop example_drop init)))
       \<le> length [Rejected NonError, Rejected NonError]
   \<and> \<not> isProcessing (steps (map (Settle 0) [Rejected NonError, Rejected NonError])
                     (run (convertAllImages (images (onDrop example_drop init)))
                        (onDrop example_drop init)))
   \<and> calls (steps (map (Settle 0) [Rejected NonError, Rejected NonError])
                     (run (convertAllImages (images (onDrop example_drop init)))
                        (onDrop example_drop init)))
       = [FetchCall example_jpg, FetchCall example_png]"
  using convertAllImages_serial [of "[Rejected NonError]" "onDrop example_drop init"]
        convertAllImages_serial [of "[Rejected NonError, Rejected NonError]"
                                    "onDrop example_drop init"]
  by (simp add: onDrop_def example_drop_def init_def)



text \<open>
  C9. The updates of \<open>convertImage\<close> for an item (to \<open>processing\<close> when it starts, to
  \<open>completed\<close> or \<open>error\<close> when its request has settled) keep the length of the list and
  leave every entry with another identifier as it was; each of the three update functions
  is the identity on such an entry.
\<close>

theorem convertImage_frame:
  "length (images (run (convertImage x) s)) = length (images s)
   \<and> length (images (step (Settle (length (awaiting s)) outcome) (run (convertImage x) s)))
       = length (images s)
   \<and> (\<forall>i < length (images s).
         id' (images s ! i) \<noteq> id' x \<longrightarrow>
           images (run (convertImage x) s) ! i = images s ! i
         \<and> images (step (Settle (length (awaiting s)) outcome) (run (convertImage x) s)) ! i
             = images s ! i)
   \<and> (\<forall>img. id' img \<noteq> id' x \<longrightarrow>
         mark_processing x img = img
       \<and> mark_completed x result img = img
       \<and> mark_error x err img = img)"
proof -
  have a: "images (run (convertImage x) s) ! i = images s ! i
         \<and> images (step (Settle (length (awaiting s)) outcome) (run (convertImage x) s)) ! i
             = images s ! i"
    if "i < length (images s)" "id' (images s ! i) \<noteq> id' x" for i
    unfolding settle_convertImage run_convertImage_images
    using that by (simp add: mark_processing_other settled_other)
  have b: "length (images (step (Settle (length (awaiting s)) outcome) (run (convertImage x) s)))
       = length (images s)"
    unfolding settle_convertImage by simp
  have c: "mark_processing x img = img \<and> mark_completed x result img = img
           \<and> mark_error x err img = img" if "id' img \<noteq> id' x" for img
    using that by (simp add: mark_processing_def mark_completed_def mark_error_def)
  from a b c show ?thesis
    by (simp add: run_convertImage_images)
qed

theorem convertImage_frame_witness:
  "Suc 0 < length (images (onDrop example_drop init))
   \<and> id' (images (onDrop example_drop init) ! Suc 0) \<noteq> id' example_item
   \<and> images (run (convertImage example_item) (onDrop example_drop init)) ! Suc 0
       = images (onDrop example_drop init) ! Suc 0
   \<and> images (step (Settle (length (awaiting (onDrop example_drop init)))
                      (Resolved (example_ok ''data:first'')))
                (run (convertImage example_item) (onDrop example_drop init))) ! Suc 0
       = images (onDrop example_drop init) ! Suc 0
   \<and> map status (images (step (Settle (length (awaiting (onDrop example_drop init)))
                      (Resolved (example_ok ''data:first'')))
                (run (convertImage example_item) (onDrop example_drop init))))
       = [Completed, Pending]"
  using convertImage_frame [of example_item "onDrop example_drop init"
          "Resolved (example_ok ''data:first'')"]
  by (simp add: steps_def example_drop_def onDrop_def init_def convertAllImages_def
      convertImage_form mark_processing_def settled_def attempt_def mark_completed_def
      mark_error_def ok_def Let_def example_ok_def example_item_def)

lemma confined_mono: "confined D p \<Longrightarrow> D \<subseteq> D' \<Longrightarrow> confined D' p"
  by (induction p) auto

lemma awaiting_confined_mono: "awaiting_confined D s \<Longrightarrow> D \<subseteq> D' \<Longrightarrow> awaiting_confined D' s"
  unfolding awaiting_confined_def by (blast intro: confined_mono)

lemma confined_seq: "confined D p \<Longrightarrow> confined D q \<Longrightarrow> confined D (seq p q)"
  by (induction p) auto

lemma origin_mark_processing: "origin (mark_processing x img) = origin img"
  by (simp add: origin_def mark_processing_def)

lemma origin_settled: "origin (settled x outcome img) = origin img"
  by (simp add: origin_def settled_def mark_error_def mark_completed_def split: sum.splits)

lemma confined_convertImage: "id' x \<in> D \<Longrightarrow> confined D (convertImage x)"
proof -
  assume x: "id' x \<in> D"
  have "mark_processing x img = img \<and> settled x outcome img = img"
    if "id' img \<notin> D" for img outcome
  proof -
    from that x have "id' img \<noteq> id' x" by auto
    then show ?thesis by (simp add: mark_processing_other settled_other)
  qed
  then show ?thesis
    unfolding convertImage_form
    by (simp add: origin_mark_processing origin_settled)
qed

lemma confined_for_of:
  "id' ` set xs \<subseteq> D \<Longrightarrow> confined D (for_of xs convertImage)"
  by (induction xs) (simp_all add: confined_seq confined_convertImage)

lemma confined_convertAllImages:
  "id' ` set imgs \<subseteq> D \<Longrightarrow> confined D (convertAllImages imgs)"
proof -
  assume a: "id' ` set imgs \<subseteq> D"
  then have "id' ` set (filter (\<lambda>img. status img = Pending) imgs) \<subseteq> D" by auto
  then have "confined D (for_of (filter (\<lambda>img. status img = Pending) imgs) convertImage)"
    by (rule confined_for_of)
  then show ?thesis
    by (simp add: convertAllImages_def Let_def confined_seq)
qed

lemma run_confined:
  "confined D p \<Longrightarrow> awaiting_confined D s \<Longrightarrow>
     awaiting_confined D (run p s) \<and> map origin (images (run p s)) = map origin (images s)"
proof (induction p arbitrary: s)
  case (SetImagesMap g p)
  have "awaiting_confined D (s\<lparr>images := map g (images s)\<rparr>)"
    using SetImagesMap.prems(2) by (simp add: awaiting_confined_def)
  with SetImagesMap.IH [of "s\<lparr>images := map g (images s)\<rparr>"] SetImagesMap.prems(1)
  show ?case by simp
next
  case (SetIsProcessing b p)
  have "awaiting_confined D (s\<lparr>isProcessing := b\<rparr>)"
    using SetIsProcessing.prems(2) by (simp add: awaiting_confined_def)
  with SetIsProcessing.IH [of "s\<lparr>isProcessing := b\<rparr>"] SetIsProcessing.prems(1)
  show ?case by simp
next
  case (Fetch f k)
  then show ?case by (auto simp: awaiting_confined_def)
qed simp_all

lemma run_untouched:
  "confined D p \<Longrightarrow> \<forall>img \<in> set (images s). id' img \<notin> D \<Longrightarrow> images (run p s) = images s"
proof (induction p arbitrary: s)
  case (SetImagesMap g p)
  have m: "map g (images s) = images s"
    using SetImagesMap.prems by (simp add: map_idI)
  have "images (run p (s\<lparr>images := map g (images s)\<rparr>)) = images (s\<lparr>images := map g (images s)\<rparr>)"
    using SetImagesMap.prems m by (intro SetImagesMap.IH) simp_all
  with m show ?case by simp
next
  case (SetIsProcessing b p)
  have "images (run p (s\<lparr>isProcessing := b\<rparr>)) = images (s\<lparr>isProcessing := b\<rparr>)"
    using SetIsProcessing.prems by (intro SetIsProcessing.IH) simp_all
  then show ?case by simp
qed simp_all

lemma awaiting_confined_remove:
  "awaiting_confined D s \<Longrightarrow>
     awaiting_confined D (s\<lparr>awaiting := take n (awaiting s) @ drop (Suc n) (awaiting s)\<rparr>)"
  unfolding awaiting_confined_def
  by (auto dest: in_set_takeD in_set_dropD)

lemma settle_confined:
  assumes "awaiting_confined D s"
  shows "awaiting_confined D (step (Settle n outcome) s)"
    and "map origin (images (step (Settle n outcome) s)) = map origin (images s)"
proof -
  show "awaiting_confined D (step (Settle n outcome) s)"
  proof (cases "n < length (awaiting s)")
    case True
    then have "confined D (snd (awaiting s ! n) outcome)"
      using assms by (simp add: awaiting_confined_def)
    then show ?thesis
      using True run_confined [OF _ awaiting_confined_remove [OF assms, of n]] by simp
  next
    case False
    with assms show ?thesis by simp
  qed
  show "map origin (images (step (Settle n outcome) s)) = map origin (images s)"
  proof (cases "n < length (awaiting s)")
    case True
    then have "confined D (snd (awaiting s ! n) outcome)"
      using assms by (simp add: awaiting_confined_def)
    then show ?thesis
      using True run_confined [OF _ awaiting_confined_remove [OF assms, of n]] by simp
  next
    case False
    then show ?thesis by simp
  qed
qed

lemma ids_of_origins:
  "map origin xs = map origin ys \<Longrightarrow> id' ` set xs = id' ` set ys"
proof -
  assume "map origin xs = map origin ys"
  then have "map (fst \<circ> origin) xs = map (fst \<circ> origin) ys"
    by (metis map_map)
  moreover have "fst \<circ> origin = id'" by (simp add: fun_eq_iff origin_def)
  ultimately have "map id' xs = map id' ys" by simp
  then show ?thesis by (metis set_map)
qed

lemma origins_set:
  "map origin xs = map origin ys \<Longrightarrow> origin ` set xs = origin ` set ys"
  by (metis set_map)

lemma run_keeps:
  assumes "confined D p" and "awaiting_confined D s"
  shows "awaiting_confined D (run p s)"
    and "id' ` set (images (run p s)) = id' ` set (images s)"
    and "origin ` set (images (run p s)) = origin ` set (images s)"
proof -
  from run_confined [OF assms]
  have a: "awaiting_confined D (run p s)"
    and m: "map origin (images (run p s)) = map origin (images s)"
    by blast+
  show "awaiting_confined D (run p s)" by (rule a)
  show "id' ` set (images (run p s)) = id' ` set (images s)"
    using m by (rule ids_of_origins)
  show "origin ` set (images (run p s)) = origin ` set (images s)"
    using m by (rule origins_set)
qed

lemma settle_keeps:
  assumes "awaiting_confined D s"
  shows "id' ` set (images (step (Settle n outcome) s)) = id' ` set (images s)"
    and "origin ` set (images (step (Settle n outcome) s)) = origin ` set (images s)"
proof -
  have m: "map origin (images (step (Settle n outcome) s)) = map origin (images s)"
    using assms by (rule settle_confined)
  show "id' ` set (images (step (Settle n outcome) s)) = id' ` set (images s)"
    using m by (rule ids_of_origins)
  show "origin ` set (images (step (Settle n outcome) s)) = origin ` set (images s)"
    using m by (rule origins_set)
qed

lemma step_confined:
  assumes "awaiting_confined D s" and "id' ` set (images s) \<subseteq> D"
  shows "awaiting_confined (D \<union> fst ` set (dropped [ev])) (step ev s)
       \<and> id' ` set (images (step ev s)) \<subseteq> D \<union> fst ` set (dropped [ev])
       \<and> origin ` set (images (step ev s)) \<subseteq> origin ` set (images s) \<union> set (dropped [ev])"
proof (cases ev)
  case (Drop fs)
  have "awaiting_confined (D \<union> fst ` set fs) s"
    using assms(1) by (rule awaiting_confined_mono) simp
  then have "awaiting_confined (D \<union> fst ` set fs) (onDrop fs s)"
    by (simp add: awaiting_confined_def onDrop_def)
  moreover have "id' ` set (images (onDrop fs s)) \<subseteq> D \<union> fst ` set fs"
    using assms(2) by (force simp: onDrop_def)
  moreover have "origin ` set (images (onDrop fs s)) \<subseteq> origin ` set (images s) \<union> set fs"
    by (auto simp: onDrop_def origin_def)
  ultimately show ?thesis by (simp add: Drop dropped_def)
next
  case ClickConvertAll
  have c: "confined D (convertAllImages (images s))"
    using assms(2) by (rule confined_convertAllImages)
  show ?thesis
    using run_keeps [OF c assms(1)] assms
    by (simp add: ClickConvertAll dropped_def)
next
  case ClickClearAll
  have "awaiting_confined D (clearImages s)"
    using assms(1) by (simp add: awaiting_confined_def clearImages_def)
  with assms show ?thesis
    by (simp add: ClickClearAll dropped_def clearImages_def)
next
  case (ClickConvert i)
  show ?thesis
  proof (cases "i < length (images s)")
    case True
    then have "id' (images s ! i) \<in> D" using assms(2) by auto
    then have c: "confined D (convertImage (images s ! i))" by (rule confined_convertImage)
    show ?thesis
      using run_keeps [OF c assms(1)] assms
      by (simp add: ClickConvert dropped_def)
  next
    case False
    with assms show ?thesis by (simp add: ClickConvert dropped_def)
  qed
next
  case (Settle n outcome)
  from settle_confined(1) [OF assms(1), of n outcome] settle_keeps [OF assms(1), of n outcome]
    assms(2)
  show ?thesis
    by (simp add: Settle dropped_def del: step.simps)
qed

lemma dropped_Cons: "dropped (ev # evs) = dropped [ev] @ dropped evs"
  by (simp add: dropped_def)

lemma steps_confined:
  "awaiting_confined D s \<Longrightarrow> id' ` set (images s) \<subseteq> D \<Longrightarrow>
     awaiting_confined (D \<union> fst ` set (dropped evs)) (steps evs s)
   \<and> origin ` set (images (steps evs s)) \<subseteq> origin ` set (images s) \<union> set (dropped evs)"
proof (induction evs arbitrary: D s)
  case Nil
  then show ?case by (simp add: steps_Nil dropped_def)
next
  case (Cons ev evs)
  from step_confined [OF Cons.prems, of ev]
  have a: "awaiting_confined (D \<union> fst ` set (dropped [ev])) (step ev s)"
    and b: "id' ` set (images (step ev s)) \<subseteq> D \<union> fst ` set (dropped [ev])"
    and c: "origin ` set (images (step ev s)) \<subseteq> origin ` set (images s) \<union> set (dropped [ev])"
    by blast+
  from Cons.IH [OF a b]
  have d: "awaiting_confined (D \<union> fst ` set (dropped [ev]) \<union> fst ` set (dropped evs))
             (steps evs (step ev s))"
    and e: "origin ` set (images (steps evs (step ev s)))
              \<subseteq> origin ` set (images (step ev s)) \<union> set (dropped evs)"
    by blast+
  have f: "D \<union> fst ` set (dropped [ev]) \<union> fst ` set (dropped evs)
             = D \<union> fst ` set (dropped (ev # evs))"
    by (subst dropped_Cons [of ev evs]) auto
  have g: "set (dropped (ev # evs)) = set (dropped [ev]) \<union> set (dropped evs)"
    by (subst dropped_Cons [of ev evs]) simp
  from d e c show ?case
    unfolding steps_Cons f g by blast
qed

lemma reachable_confined:
  "awaiting_confined (fst ` set (dropped evs)) (steps evs init)"
  using steps_confined [of "{}" init evs]
  by (simp add: awaiting_confined_def init_def)

lemma settles_untouched:
  "awaiting_confined D s \<Longrightarrow> \<forall>img \<in> set (images s). id' img \<notin> D \<Longrightarrow>
     images (steps (map (\<lambda>(n, outcome). Settle n outcome) nos) s) = images s"
proof (induction nos arbitrary: s)
  case Nil
  then show ?case by (simp add: steps_Nil)
next
  case (Cons no nos)
  obtain n outcome where no: "no = (n, outcome)" by (cases no)
  have im: "images (step (Settle n outcome) s) = images s"
  proof (cases "n < length (awaiting s)")
    case True
    then have "confined D (snd (awaiting s ! n) outcome)"
      using Cons.prems(1) by (simp add: awaiting_confined_def)
    then have "images (run (snd (awaiting s ! n) outcome)
                 (s\<lparr>awaiting := take n (awaiting s) @ drop (Suc n) (awaiting s)\<rparr>))
               = images (s\<lparr>awaiting := take n (awaiting s) @ drop (Suc n) (awaiting s)\<rparr>)"
      using Cons.prems(2) by (intro run_untouched) simp_all
    with True show ?thesis by simp
  next
    case False
    then show ?thesis by simp
  qed
  have aw: "awaiting_confined D (step (Settle n outcome) s)"
    using Cons.prems(1) by (rule settle_confined)
  have "images (steps (map (\<lambda>(n, outcome). Settle n outcome) nos) (step (Settle n outcome) s))
          = images (step (Settle n outcome) s)"
    using aw Cons.prems(2) im by (intro Cons.IH) simp_all
  with im show ?case
    by (simp add: no steps_Cons del: step.simps)
qed

text \<open>
  C6, as the code has it. The Clear All button is disabled while \<open>isProcessing\<close> is true,
  so during a batch conversion a click on it changes nothing. While \<open>isProcessing\<close> is
  false (also with individual conversions in flight) it revokes the preview URL of every
  item and empties the list. From then on no update reaches a cleared item: whatever
  happens next, every item in the list was dropped after the clearing, the list stays
  empty until new files are dropped, and responses to requests sent before the clearing
  leave newly dropped items (with new identifiers) exactly as they were dropped.
\<close>

theorem clearImages_when_idle:
  "(isProcessing s \<longrightarrow> step ClickClearAll s = s)
   \<and> (\<not> isProcessing s \<longrightarrow>
        images (step ClickClearAll s) = []
      \<and> calls (step ClickClearAll s)
          = calls s @ map (\<lambda>img. RevokeObjectURL (preview img)) (images s)
      \<and> (\<forall>evs. (\<forall>ev \<in> set evs. \<not> is_Drop ev) \<longrightarrow>
            images (steps evs (step ClickClearAll s)) = []))
   \<and> (\<not> isProcessing (steps evs0 init) \<longrightarrow>
        (\<forall>evs. \<forall>img \<in> set (images (steps evs (step ClickClearAll (steps evs0 init)))).
           origin img \<in> set (dropped evs))
      \<and> (\<forall>acceptedFiles nos.
            (\<forall>x \<in> set acceptedFiles. fst x \<notin> fst ` set (dropped evs0)) \<longrightarrow>
            images (steps (Drop acceptedFiles # map (\<lambda>(n, outcome). Settle n outcome) nos)
                      (step ClickClearAll (steps evs0 init)))
              = images (onDrop acceptedFiles init)))"
proof -
  have a: "images (step ClickClearAll s) = []" if "\<not> isProcessing s" for s
    using that by (simp add: clearImages_def)
  have b: "calls (step ClickClearAll s)
          = calls s @ map (\<lambda>img. RevokeObjectURL (preview img)) (images s)"
    if "\<not> isProcessing s"
    using that by (simp add: clearImages_def)
  have c: "images (steps evs (step ClickClearAll s)) = []"
    if "\<not> isProcessing s" "\<forall>ev \<in> set evs. \<not> is_Drop ev" for evs
    using a [OF that(1)] that(2) by (rule steps_images_empty)
  let ?r = "steps evs0 init"
  let ?D = "fst ` set (dropped evs0)"
  have aw: "awaiting_confined ?D (step ClickClearAll ?r)"
    using reachable_confined [of evs0]
    by (simp add: awaiting_confined_def clearImages_def)
  have d: "origin img \<in> set (dropped evs)"
    if idle: "\<not> isProcessing ?r"
      and img: "img \<in> set (images (steps evs (step ClickClearAll ?r)))" for evs img
  proof -
    have e: "images (step ClickClearAll ?r) = []" using idle by (rule a)
    then have "id' ` set (images (step ClickClearAll ?r)) \<subseteq> ?D" by simp
    with aw have "origin ` set (images (steps evs (step ClickClearAll ?r)))
                    \<subseteq> origin ` set (images (step ClickClearAll ?r)) \<union> set (dropped evs)"
      using steps_confined by blast
    with e img show ?thesis by auto
  qed
  have f: "images (steps (Drop fs # map (\<lambda>(n, outcome). Settle n outcome) nos)
                      (step ClickClearAll ?r)) = images (onDrop fs init)"
    if idle: "\<not> isProcessing ?r" and new: "\<forall>x \<in> set fs. fst x \<notin> ?D" for fs nos
  proof -
    let ?c = "step ClickClearAll ?r"
    have e: "images ?c = []" using idle by (rule a)
    have im: "images (onDrop fs ?c) = images (onDrop fs init)"
      using e by (simp add: onDrop_def init_def)
    have aw': "awaiting_confined ?D (onDrop fs ?c)"
      using aw by (simp add: awaiting_confined_def onDrop_def)
    have "id' ` set (images (onDrop fs init)) = fst ` set fs"
      by (force simp: onDrop_def init_def)
    then have "\<exists>x \<in> set fs. id' img = fst x"
      if "img \<in> set (images (onDrop fs init))" for img
      using that by (metis imageE imageI)
    with new have fresh: "\<forall>img \<in> set (images (onDrop fs ?c)). id' img \<notin> ?D"
      unfolding im by metis
    have "images (steps (map (\<lambda>(n, outcome). Settle n outcome) nos) (onDrop fs ?c))
            = images (onDrop fs ?c)"
      using aw' fresh by (rule settles_untouched)
    with im show ?thesis
      by (simp add: steps_Cons del: step.simps(2-5))
  qed
  have g: "step ClickClearAll s = s" if "isProcessing s"
    using that by simp
  from g a [of s] b c d f show ?thesis
    by blast
qed

theorem clearImages_when_idle_witness:
  "isProcessing (steps [Drop example_drop, ClickConvertAll] init)
   \<and> step ClickClearAll (steps [Drop example_drop, ClickConvertAll] init)
       = steps [Drop example_drop, ClickConvertAll] init
   \<and> \<not> isProcessing (steps [Drop example_drop, ClickConvert (Suc 0)] init)
   \<and> images (step ClickClearAll (steps [Drop example_drop, ClickConvert (Suc 0)] init)) = []
   \<and> calls (step ClickClearAll (steps [Drop example_drop, ClickConvert (Suc 0)] init))
       = [FetchCall example_png, RevokeObjectURL ''blob:1'', RevokeObjectURL ''blob:2'']
   \<and> \<not> is_Drop (Settle 0 (Resolved (example_ok ''data:first'')))
   \<and> images (steps [Settle 0 (Resolved (example_ok ''data:first''))]
               (step ClickClearAll (steps [Drop example_drop, ClickConvert (Suc 0)] init))) = []
   \<and> ''n7c2v5x1d'' \<notin> fst ` set (dropped [Drop example_drop, ClickConvert (Suc 0)])
   \<and> images (steps [Drop example_later_drop, Settle 0 (Resolved (example_ok ''data:first''))]
               (step ClickClearAll (steps [Drop example_drop, ClickConvert (Suc 0)] init)))
       = images (onDrop example_later_drop init)
   \<and> map status (images (onDrop example_later_drop init)) = [Pending]
   \<and> map origin (images (onDrop example_later_drop init)) = example_later_drop"
proof -
  have busy: "isProcessing (steps [Drop example_drop, ClickConvertAll] init)"
    by (simp add: steps_def example_drop_def onDrop_def init_def convertAllImages_def
      convertImage_form mark_processing_def settled_def attempt_def mark_completed_def
      mark_error_def ok_def Let_def)
  have idle: "\<not> isProcessing (steps [Drop example_drop, ClickConvert (Suc 0)] init)"
    by (simp add: steps_def example_drop_def onDrop_def init_def convertAllImages_def
      convertImage_form mark_processing_def settled_def attempt_def mark_completed_def
      mark_error_def ok_def Let_def)
  have nodrop: "\<forall>ev \<in> set [Settle 0 (Resolved (example_ok ''data:first''))]. \<not> is_Drop ev"
    by (simp add: is_Drop_def)
  have cl: "calls (steps [Drop example_drop, ClickConvert (Suc 0)] init) = [FetchCall example_png]"
    and im: "map preview (images (steps [Drop example_drop, ClickConvert (Suc 0)] init))
               = [''blob:1'', ''blob:2'']"
    by (simp_all add: steps_def example_drop_def onDrop_def init_def convertAllImages_def
      convertImage_form mark_processing_def settled_def attempt_def mark_completed_def
      mark_error_def ok_def Let_def)
  have new: "\<forall>x \<in> set example_later_drop.
               fst x \<notin> fst ` set (dropped [Drop example_drop, ClickConvert (Suc 0)])"
    by (simp add: example_later_drop_def dropped_def example_drop_def)
  have new': "''n7c2v5x1d'' \<notin> fst ` set (dropped [Drop example_drop, ClickConvert (Suc 0)])"
    by (simp add: dropped_def example_drop_def)
  have fresh: "map status (images (onDrop example_later_drop init)) = [Pending]"
    "map origin (images (onDrop example_later_drop init)) = example_later_drop"
    by (simp_all add: onDrop_def example_later_drop_def init_def origin_def)
  from clearImages_when_idle [of "steps [Drop example_drop, ClickConvertAll] init" "[]"] busy
  have 1: "step ClickClearAll (steps [Drop example_drop, ClickConvertAll] init)
       = steps [Drop example_drop, ClickConvertAll] init"
    by blast
  from clearImages_when_idle [of "steps [Drop example_drop, ClickConvert (Suc 0)] init"
          "[Drop example_drop, ClickConvert (Suc 0)]"] idle
  have 2: "images (step ClickClearAll (steps [Drop example_drop, ClickConvert (Suc 0)] init)) = []"
    and 3: "calls (step ClickClearAll (steps [Drop example_drop, ClickConvert (Suc 0)] init))
          = calls (steps [Drop example_drop, ClickConvert (Suc 0)] init)
            @ map (\<lambda>img. RevokeObjectURL (preview img))
                (images (steps [Drop example_drop, ClickConvert (Suc 0)] init))"
    and 4: "\<forall>evs. (\<forall>ev \<in> set evs. \<not> is_Drop ev) \<longrightarrow>
            images (steps evs (step ClickClearAll
                     (steps [Drop example_drop, ClickConvert (Suc 0)] init))) = []"
    and 7: "\<forall>acceptedFiles nos.
            (\<forall>x \<in> set acceptedFiles.
               fst x \<notin> fst ` set (dropped [Drop example_drop, ClickConvert (Suc 0)])) \<longrightarrow>
            images (steps (Drop acceptedFiles # map (\<lambda>(n, outcome). Settle n outcome) nos)
                      (step ClickClearAll (steps [Drop example_drop, ClickConvert (Suc 0)] init)))
              = images (onDrop acceptedFiles init)"
    by blast+
  from 4 nodrop have 5: "images (steps [Settle 0 (Resolved (example_ok ''data:first''))]
               (step ClickClearAll (steps [Drop example_drop, ClickConvert (Suc 0)] init))) = []"
    by blast
  have 6: "map (\<lambda>img. RevokeObjectURL (preview img))
                (images (steps [Drop example_drop, ClickConvert (Suc 0)] init))
           = [RevokeObjectURL ''blob:1'', RevokeObjectURL ''blob:2'']"
    using im by (simp add: map_eq_Cons_conv)
  from 7 new
  have "images (steps (Drop example_later_drop
                  # map (\<lambda>(n, outcome). Settle n outcome)
                      [(0, Resolved (example_ok ''data:first''))])
               (step ClickClearAll (steps [Drop example_drop, ClickConvert (Suc 0)] init)))
          = images (onDrop example_later_drop init)"
    by blast
  then have 8: "images (steps [Drop example_later_drop,
                               Settle 0 (Resolved (example_ok ''data:first''))]
               (step ClickClearAll (steps [Drop example_drop, ClickConvert (Suc 0)] init)))
          = images (onDrop example_later_drop init)"
    by simp
  from busy 1 idle 2 3 5 nodrop cl 6 8 new' fresh show ?thesis
    by simp
qed

text \<open>
  C6, as stated, fails during a batch conversion: after two files are dropped and
  Convert All is clicked, \<open>isProcessing\<close> is true and a request is in flight; a click on
  Clear All leaves both items in the list and revokes no preview URL.
\<close>

theorem clear_disabled_during_batch:
  "isProcessing (steps [Drop example_drop, ClickConvertAll] init)
   \<and> map fst (awaiting (steps [Drop example_drop, ClickConvertAll] init)) = [example_jpg]
   \<and> map preview (images (steps [Drop example_drop, ClickConvertAll, ClickClearAll] init))
       = [''blob:1'', ''blob:2'']
   \<and> calls (steps [Drop example_drop, ClickConvertAll, ClickClearAll] init)
       = [FetchCall example_jpg]"
  by (simp add: steps_def example_drop_def onDrop_def init_def convertAllImages_def
      convertImage_form mark_processing_def settled_def attempt_def mark_completed_def
      mark_error_def ok_def Let_def clearImages_def)

text \<open>
  The button of an item: disabled while the item is \<open>processing\<close> or \<open>completed\<close>, and
  otherwise it starts \<open>convertImage\<close> for the item, which sends one request and puts the
  item in status \<open>processing\<close>.
\<close>

lemma ClickConvert_disabled:
  "status (images s ! i) = Processing \<or> status (images s ! i) = Completed \<Longrightarrow>
     step (ClickConvert i) s = s"
  by auto

lemma ClickConvert_enabled:
  assumes "i < length (images s)"
    and "status (images s ! i) = Pending \<or> status (images s ! i) = Error"
  shows "step (ClickConvert i) s = run (convertImage (images s ! i)) s"
    and "calls (step (ClickConvert i) s) = calls s @ [FetchCall (file' (images s ! i))]"
    and "status (images (step (ClickConvert i) s) ! i) = Processing"
  using assms by (auto simp: convertImage_form mark_processing_def)

text \<open>
  C7 at a concrete run. Two files are dropped, Convert All is clicked, and while the first
  request is in flight the button of the second item (still \<open>pending\<close>) is clicked. That
  conversion completes: the second item is \<open>completed\<close> with preview \<open>data:first\<close>. When
  the first request settles, the batch goes on with its list of the items that were pending
  when it started: it sends a second request for the second item and puts it back to
  \<open>processing\<close>, and the response overwrites its preview with \<open>data:second\<close>.
\<close>

theorem completed_item_reconverted:
  "map status (images (steps [Drop example_drop, ClickConvertAll, ClickConvert (Suc 0),
        Settle (Suc 0) (Resolved (example_ok ''data:first''))] init)) = [Processing, Completed]
   \<and> map previewUrl (images (steps [Drop example_drop, ClickConvertAll, ClickConvert (Suc 0),
        Settle (Suc 0) (Resolved (example_ok ''data:first''))] init)) = [None, Some ''data:first'']
   \<and> map status (images (steps [Drop example_drop, ClickConvertAll, ClickConvert (Suc 0),
        Settle (Suc 0) (Resolved (example_ok ''data:first'')),
        Settle 0 (Resolved (example_ok ''data:a''))] init)) = [Completed, Processing]
   \<and> calls (steps [Drop example_drop, ClickConvertAll, ClickConvert (Suc 0),
        Settle (Suc 0) (Resolved (example_ok ''data:first'')),
        Settle 0 (Resolved (example_ok ''data:a''))] init)
       = [FetchCall example_jpg, FetchCall example_png, FetchCall example_png]
   \<and> map previewUrl (images (steps [Drop example_drop, ClickConvertAll, ClickConvert (Suc 0),
        Settle (Suc 0) (Resolved (example_ok ''data:first'')),
        Settle 0 (Resolved (example_ok ''data:a'')),
        Settle 0 (Resolved (example_ok ''data:second''))] init))
       = [Some ''data:a'', Some ''data:second'']"
  by (simp add: steps_def example_drop_def onDrop_def init_def convertAllImages_def
      convertImage_form mark_processing_def settled_def attempt_def mark_completed_def
      mark_error_def ok_def Let_def example_ok_def)

end
